theory Spec2Isabelle
  imports Complex_Main "HOL-Library.Multiset"
begin

section \<open>Data model\<close>

text \<open>
  The notebook \<^verbatim>\<open>Lab1+2v1.ipynb\<close> cleans a numeric table with pandas and numpy.
  A cell is a number or the missing value \<^verbatim>\<open>nan\<close>. Numbers are exact rationals: the
  only arithmetic done on cells is the mean of the two middle elements inside
  \<^verbatim>\<open>np.median\<close>, whose binary64 rounding is not modelled. A row carries its index label
  and its cells keyed by column name, in column order. A frame carries its column
  labels (with the one dtype distinction the notebook relies on: \<^verbatim>\<open>category\<close> or not)
  and its rows.
\<close>

datatype val = Num rat | NaN

datatype dtype = Numeric | Category

datatype error = KeyError string | IndexError

type_synonym row = "nat \<times> (string \<times> val) list"

record dataframe =
  columns :: "(string \<times> dtype) list"
  rows :: "row list"

text \<open>A series is one named column: its label and dtype, and its values with their index labels.\<close>

type_synonym series = "(string \<times> dtype) \<times> (nat \<times> val) list"

definition col_names :: "dataframe \<Rightarrow> string list" where
  "col_names df = map fst (columns df)"

definition cell :: "string \<Rightarrow> row \<Rightarrow> val" where
  "cell c r = (case map_of (snd r) c of Some v \<Rightarrow> v | None \<Rightarrow> NaN)"

definition series_values :: "series \<Rightarrow> val list" where
  "series_values s = map snd (snd s)"

text \<open>
  A frame is well formed when its column labels are distinct and every row has
  exactly the frame's columns, in order (what \<^verbatim>\<open>pd.read_csv\<close> produces).
\<close>

definition wf_df :: "dataframe \<Rightarrow> bool" where
  "wf_df df \<longleftrightarrow>
     distinct (col_names df) \<and> list_all (\<lambda>r. map fst (snd r) = col_names df) (rows df)"

section \<open>The pandas and numpy operations the notebook calls\<close>

text \<open>\<^verbatim>\<open>df[c]\<close>: the column as a series; \<^verbatim>\<open>KeyError\<close> when there is no such column.\<close>

definition getitem :: "dataframe \<Rightarrow> string \<Rightarrow> error + series" where
  "getitem df c =
     (case map_of (columns df) c of
        Some t \<Rightarrow> Inr ((c, t), map (\<lambda>r. (fst r, cell c r)) (rows df))
      | None \<Rightarrow> Inl (KeyError c))"

text \<open>
  \<^verbatim>\<open>df.loc[df[c] == z]\<close>: the rows whose cell in column \<open>c\<close> equals the number \<open>z\<close>,
  in their order and with their index labels (\<^verbatim>\<open>nan == z\<close> is false).
\<close>

definition loc_eq :: "dataframe \<Rightarrow> string \<Rightarrow> rat \<Rightarrow> error + dataframe" where
  "loc_eq df c z =
     (case getitem df c of
        Inl e \<Rightarrow> Inl e
      | Inr s \<Rightarrow> Inr (df\<lparr>rows := filter (\<lambda>r. cell c r = Num z) (rows df)\<rparr>))"

text \<open>
  \<^verbatim>\<open>np.median\<close>: \<^verbatim>\<open>nan\<close> on an empty array (numpy warns and does not raise) and on an
  array holding a \<^verbatim>\<open>nan\<close>; otherwise the middle element of the sorted values, or the
  mean of the two middle elements when their number is even.
\<close>

fun num_of :: "val \<Rightarrow> rat" where
  "num_of (Num q) = q"
| "num_of NaN = 0"

definition np_median :: "val list \<Rightarrow> val" where
  "np_median vs =
     (if vs = [] \<or> NaN \<in> set vs then NaN
      else let xs = sort (map num_of vs); sz = length xs; szh = sz div 2
           in if sz mod 2 = 0 then Num ((xs ! (szh - 1) + xs ! szh) / 2)
              else Num (xs ! ((sz - 1) div 2)))"

text \<open>
  \<^verbatim>\<open>df.replace({c: z}, v)\<close>: in column \<open>c\<close>, every cell equal to \<open>z\<close> becomes \<open>v\<close>;
  all other cells, the row order and the index are kept.
\<close>

definition replace_cells :: "string \<Rightarrow> rat \<Rightarrow> val \<Rightarrow> (string \<times> val) list \<Rightarrow> (string \<times> val) list" where
  "replace_cells c z v cs = map (\<lambda>(k, x). (k, if k = c \<and> x = Num z then v else x)) cs"

definition replace :: "dataframe \<Rightarrow> string \<Rightarrow> rat \<Rightarrow> val \<Rightarrow> dataframe" where
  "replace df c z v = df\<lparr>rows := map (\<lambda>r. (fst r, replace_cells c z v (snd r))) (rows df)\<rparr>"

text \<open>
  \<^verbatim>\<open>pd.concat([df1, df2])\<close> of two frames with the same columns: the rows of the first
  followed by the rows of the second, index labels kept.
\<close>

definition concat2 :: "dataframe \<Rightarrow> dataframe \<Rightarrow> dataframe" where
  "concat2 df1 df2 = df1\<lparr>rows := rows df1 @ rows df2\<rparr>"

section \<open>The imputation cell\<close>

text \<open>
  \<^verbatim>\<open>
  df1 = data.loc[data['Outcome'] == 1]
  df2 = data.loc[data['Outcome'] == 0]
  columnsToImpute = ['BloodPressure', 'BMI', 'Glucose', 'Insulin', 'SkinThickness']
  for column in columnsToImpute:
      df1 = df1.replace({column:0}, np.median(df1[column]))
      df2 = df2.replace({column:0}, np.median(df2[column]))
  dataframe = [df1, df2]
  data = pd.concat(dataframe)
  \<close>
\<close>

definition columnsToImpute :: "string list" where
  "columnsToImpute = [''BloodPressure'', ''BMI'', ''Glucose'', ''Insulin'', ''SkinThickness'']"

fun impute_loop :: "string list \<Rightarrow> dataframe \<Rightarrow> dataframe \<Rightarrow> error + (dataframe \<times> dataframe)" where
  "impute_loop [] df1 df2 = Inr (df1, df2)"
| "impute_loop (column # cs) df1 df2 =
     (case getitem df1 column of
        Inl e \<Rightarrow> Inl e
      | Inr s1 \<Rightarrow>
          let df1' = replace df1 column 0 (np_median (series_values s1))
          in (case getitem df2 column of
                Inl e \<Rightarrow> Inl e
              | Inr s2 \<Rightarrow>
                  let df2' = replace df2 column 0 (np_median (series_values s2))
                  in impute_loop cs df1' df2'))"

definition impute :: "dataframe \<Rightarrow> error + dataframe" where
  "impute data =
     (case loc_eq data ''Outcome'' 1 of
        Inl e \<Rightarrow> Inl e
      | Inr df1 \<Rightarrow>
          (case loc_eq data ''Outcome'' 0 of
             Inl e \<Rightarrow> Inl e
           | Inr df2 \<Rightarrow>
               (case impute_loop columnsToImpute df1 df2 of
                  Inl e \<Rightarrow> Inl e
                | Inr (df1', df2') \<Rightarrow> Inr (concat2 df1' df2'))))"

section \<open>The encoding cell\<close>

text \<open>
  \<^verbatim>\<open>
  data = data.astype({'Pregnancies':'category','Outcome':'category'})
  model_data = pd.get_dummies(data)
  \<close>
  \<^verbatim>\<open>astype\<close> with a mapping raises \<^verbatim>\<open>KeyError\<close> for a key that is no column.
  \<^verbatim>\<open>get_dummies\<close> encodes the columns of dtype \<^verbatim>\<open>category\<close>: the other columns come
  first, in their order, then for each encoded column, in column order, one indicator
  column per category (the distinct non-missing values, ascending), named
  \<^verbatim>\<open>column_level\<close>, holding 1 where the row has that level and 0 elsewhere.
\<close>

definition astype_category :: "dataframe \<Rightarrow> string list \<Rightarrow> error + dataframe" where
  "astype_category df cs =
     (case filter (\<lambda>c. c \<notin> set (col_names df)) cs of
        c # _ \<Rightarrow> Inl (KeyError c)
      | [] \<Rightarrow> Inr (df\<lparr>columns := map (\<lambda>(k, t). (k, if k \<in> set cs then Category else t))
                                    (columns df)\<rparr>))"

definition categories :: "dataframe \<Rightarrow> string \<Rightarrow> rat list" where
  "categories df c = sort (remdups (map num_of (filter (\<lambda>v. v \<noteq> NaN) (map (cell c) (rows df)))))"

text \<open>
  The level in a column name is Python's \<^verbatim>\<open>str\<close> of the level. The two encoded columns
  are integer columns of the dataset, whose levels print as decimal integers; a level
  that is no integer is outside what the dataset holds and prints here as a fraction.
\<close>

function str_nat :: "nat \<Rightarrow> string" where
  "str_nat n = (if n < 10 then [''0123456789'' ! n]
                else str_nat (n div 10) @ [''0123456789'' ! (n mod 10)])"
  by pat_completeness auto
termination
  by (relation "measure id") auto

declare str_nat.simps [simp del]

definition str_int :: "int \<Rightarrow> string" where
  "str_int i = (if i < 0 then ''-'' @ str_nat (nat (- i)) else str_nat (nat i))"

definition level_str :: "rat \<Rightarrow> string" where
  "level_str q =
     (if q = of_int \<lfloor>q\<rfloor> then str_int \<lfloor>q\<rfloor>
      else str_int (fst (quotient_of q)) @ ''/'' @ str_int (snd (quotient_of q)))"

definition dummy_name :: "string \<Rightarrow> rat \<Rightarrow> string" where
  "dummy_name c q = c @ ''_'' @ level_str q"

definition dummies_for :: "dataframe \<Rightarrow> string \<Rightarrow> row \<Rightarrow> (string \<times> val) list" where
  "dummies_for df c r =
     map (\<lambda>q. (dummy_name c q, if cell c r = Num q then Num 1 else Num 0)) (categories df c)"

definition encoded_columns :: "dataframe \<Rightarrow> string list" where
  "encoded_columns df = map fst (filter (\<lambda>(k, t). t = Category) (columns df))"

definition get_dummies :: "dataframe \<Rightarrow> dataframe" where
  "get_dummies df =
     (let enc = encoded_columns df
      in \<lparr>columns = filter (\<lambda>(k, t). t \<noteq> Category) (columns df) @
                     concat (map (\<lambda>c. map (\<lambda>q. (dummy_name c q, Numeric)) (categories df c)) enc),
          rows = map (\<lambda>r. (fst r, filter (\<lambda>(k, x). k \<notin> set enc) (snd r) @
                                  concat (map (\<lambda>c. dummies_for df c r) enc)))
                     (rows df)\<rparr>)"

definition one_hot :: "dataframe \<Rightarrow> error + dataframe" where
  "one_hot data =
     (case astype_category data [''Pregnancies'', ''Outcome''] of
        Inl e \<Rightarrow> Inl e
      | Inr data' \<Rightarrow> Inr (get_dummies data'))"

section \<open>The split cell\<close>

text \<open>
  \<^verbatim>\<open>
  train_data, validation_data, test_data = np.split(
      model_data.sample(frac=1, random_state=1729),
      [int(0.7 * len(model_data)), int(0.9 * len(model_data))])
  \<close>
\<close>

subsection \<open>Binary64 arithmetic of the two split points\<close>

text \<open>
  \<^verbatim>\<open>0.7 * len(model_data)\<close> is a binary64 product: the length is converted to binary64,
  multiplied by the binary64 nearest to 0.7, and the exact product is rounded to 53
  significant bits, ties to even. \<^verbatim>\<open>int\<close> then truncates. The literals are
  \<open>0.7 = 6305039478318694 / 2^53\<close> and \<open>0.9 = 8106479329266893 / 2^53\<close>, so the
  products are computed on natural numbers in units of \<open>2^-53\<close>. (Lengths are far below
  the binary64 overflow threshold; overflow is not modelled.)
\<close>

function bit_length :: "nat \<Rightarrow> nat" where
  "bit_length n = (if n = 0 then 0 else Suc (bit_length (n div 2)))"
  by pat_completeness auto
termination
  by (relation "measure id") auto

declare bit_length.simps [simp del]

definition rne53 :: "nat \<Rightarrow> nat" where
  "rne53 p =
     (if p < 2 ^ 53 then p
      else let s = bit_length p - 53; q = p div 2 ^ s; r = p mod 2 ^ s; h = 2 ^ (s - 1)
           in (if h < r \<or> (r = h \<and> odd q) then q + 1 else q) * 2 ^ s)"

definition float_0_7 :: nat where
  "float_0_7 = 6305039478318694"

definition float_0_9 :: nat where
  "float_0_9 = 8106479329266893"

definition int_fmul :: "nat \<Rightarrow> nat \<Rightarrow> nat" where
  "int_fmul c n = rne53 (c * rne53 n) div 2 ^ 53"

subsection \<open>Sampling and splitting\<close>

text \<open>
  \<^verbatim>\<open>df.sample(frac=1, random_state=s)\<close> draws a permutation of the row positions from
  a generator and takes the rows in that order. With \<^verbatim>\<open>random_state\<close> given, the
  generator is a fresh one seeded with it; without, the process-wide generator is used.
  The generator (numpy's Mersenne Twister) is a parameter \<open>shuffle\<close>: from a generator
  state and a population size to the positions drawn, a seed standing for the state it
  initialises. What numpy guarantees of the draw, that it is a permutation of the
  positions, is a hypothesis of the results that need it. \<^verbatim>\<open>take\<close> raises
  \<^verbatim>\<open>IndexError\<close> on a position out of range.
\<close>

definition take_rows :: "dataframe \<Rightarrow> nat list \<Rightarrow> error + dataframe" where
  "take_rows df ps =
     (if list_all (\<lambda>p. p < length (rows df)) ps
      then Inr (df\<lparr>rows := map (\<lambda>p. rows df ! p) ps\<rparr>)
      else Inl IndexError)"

definition sample_all :: "(nat \<Rightarrow> nat \<Rightarrow> nat list) \<Rightarrow> nat \<Rightarrow> dataframe \<Rightarrow> nat option \<Rightarrow> error + dataframe" where
  "sample_all shuffle global_state df random_state =
     (let st = (case random_state of Some s \<Rightarrow> s | None \<Rightarrow> global_state)
      in take_rows df (shuffle st (length (rows df))))"

text \<open>
  \<^verbatim>\<open>np.split(df, [a, b])\<close> cuts along the rows into \<^verbatim>\<open>df[0:a]\<close>, \<^verbatim>\<open>df[a:b]\<close> and
  \<^verbatim>\<open>df[b:]\<close>, with Python's slice semantics.
\<close>

definition slice_rows :: "dataframe \<Rightarrow> nat \<Rightarrow> nat \<Rightarrow> dataframe" where
  "slice_rows df a b = df\<lparr>rows := take (b - a) (drop a (rows df))\<rparr>"

definition np_split :: "dataframe \<Rightarrow> nat \<Rightarrow> nat \<Rightarrow> dataframe \<times> dataframe \<times> dataframe" where
  "np_split df a b =
     (slice_rows df 0 a, slice_rows df a b, slice_rows df b (length (rows df)))"

definition split_cell ::
  "(nat \<Rightarrow> nat \<Rightarrow> nat list) \<Rightarrow> nat \<Rightarrow> dataframe \<Rightarrow> error + (dataframe \<times> dataframe \<times> dataframe)" where
  "split_cell shuffle global_state model_data =
     (case sample_all shuffle global_state model_data (Some 1729) of
        Inl e \<Rightarrow> Inl e
      | Inr shuffled \<Rightarrow>
          Inr (np_split shuffled (int_fmul float_0_7 (length (rows model_data)))
                                 (int_fmul float_0_9 (length (rows model_data)))))"

text \<open>The three cleaning cells in sequence.\<close>

definition prepare ::
  "(nat \<Rightarrow> nat \<Rightarrow> nat list) \<Rightarrow> nat \<Rightarrow> dataframe \<Rightarrow> error + (dataframe \<times> dataframe \<times> dataframe)" where
  "prepare shuffle global_state data =
     (case impute data of
        Inl e \<Rightarrow> Inl e
      | Inr data' \<Rightarrow>
          (case one_hot data' of
             Inl e \<Rightarrow> Inl e
           | Inr model_data \<Rightarrow> split_cell shuffle global_state model_data))"

section \<open>The export cell\<close>

text \<open>
  \<^verbatim>\<open>
  pd.concat([train_data['Outcome_1'], train_data.drop(['Outcome_0', 'Outcome_1'], axis=1)],
            axis=1).to_csv('train.csv', index=False, header=False)
  (the same for validation_data and 'validation.csv', test_data and 'test.csv')
  test_data.drop(['Outcome_0', 'Outcome_1'], axis=1).to_csv('test-no-outcomes.csv',
            index=False, header=False)
  merged_data = train_data.append(validation_data)
  (the same for merged_data and 'merged.csv')
  \<close>
  \<^verbatim>\<open>drop(labels, axis=1)\<close> raises \<^verbatim>\<open>KeyError\<close> for a label that is no column.
  \<^verbatim>\<open>pd.concat([s, df], axis=1)\<close> is used on a series and a frame cut from the same
  frame, so the two have the same index and the result puts the series in front of the
  frame's columns, row by row. A written file is a list of lines, a line a list of
  fields; \<^verbatim>\<open>header\<close> adds a first line of column labels and \<^verbatim>\<open>index\<close> a first field
  holding the index label. A field holds the value written; how a number is printed is
  not modelled.
\<close>

datatype field = Label string | Index nat | Value val

type_synonym csv = "field list list"

definition drop_columns :: "dataframe \<Rightarrow> string list \<Rightarrow> error + dataframe" where
  "drop_columns df labels =
     (case filter (\<lambda>c. c \<notin> set (col_names df)) labels of
        c # _ \<Rightarrow> Inl (KeyError c)
      | [] \<Rightarrow> Inr \<lparr>columns = filter (\<lambda>(k, t). k \<notin> set labels) (columns df),
                   rows = map (\<lambda>r. (fst r, filter (\<lambda>(k, x). k \<notin> set labels) (snd r))) (rows df)\<rparr>)"

definition concat_axis1 :: "series \<Rightarrow> dataframe \<Rightarrow> dataframe" where
  "concat_axis1 s df =
     \<lparr>columns = fst s # columns df,
      rows = map (\<lambda>(iv, r). (fst r, (fst (fst s), snd iv) # snd r)) (zip (snd s) (rows df))\<rparr>"

definition to_csv :: "dataframe \<Rightarrow> bool \<Rightarrow> bool \<Rightarrow> csv" where
  "to_csv df index header =
     (if header then [(if index then [Label []] else []) @ map Label (col_names df)] else []) @
     map (\<lambda>r. (if index then [Index (fst r)] else []) @ map (\<lambda>kv. Value (snd kv)) (snd r)) (rows df)"

definition labelled_csv :: "dataframe \<Rightarrow> error + csv" where
  "labelled_csv df =
     (case getitem df ''Outcome_1'' of
        Inl e \<Rightarrow> Inl e
      | Inr s \<Rightarrow>
          (case drop_columns df [''Outcome_0'', ''Outcome_1''] of
             Inl e \<Rightarrow> Inl e
           | Inr features \<Rightarrow> Inr (to_csv (concat_axis1 s features) False False)))"

definition unlabelled_csv :: "dataframe \<Rightarrow> error + csv" where
  "unlabelled_csv df =
     (case drop_columns df [''Outcome_0'', ''Outcome_1''] of
        Inl e \<Rightarrow> Inl e
      | Inr features \<Rightarrow> Inr (to_csv features False False))"

text \<open>The files written, by name, in the order of the cell; the first error stops the cell.\<close>

definition export_cell :: "dataframe \<Rightarrow> dataframe \<Rightarrow> dataframe \<Rightarrow> error + (string \<times> csv) list" where
  "export_cell train_data validation_data test_data =
     (case labelled_csv train_data of
        Inl e \<Rightarrow> Inl e
      | Inr train \<Rightarrow>
     (case labelled_csv validation_data of
        Inl e \<Rightarrow> Inl e
      | Inr validation \<Rightarrow>
     (case labelled_csv test_data of
        Inl e \<Rightarrow> Inl e
      | Inr test \<Rightarrow>
     (case unlabelled_csv test_data of
        Inl e \<Rightarrow> Inl e
      | Inr test_no_outcomes \<Rightarrow>
     (case labelled_csv (concat2 train_data validation_data) of
        Inl e \<Rightarrow> Inl e
      | Inr merged \<Rightarrow>
          Inr [(''train.csv'', train), (''validation.csv'', validation), (''test.csv'', test),
               (''test-no-outcomes.csv'', test_no_outcomes), (''merged.csv'', merged)])))))"

section \<open>The workflow definition\<close>

text \<open>
  The second notebook builds five steps with the Step Functions SDK and chains them:
  \<^verbatim>\<open>
  workflow_definition = steps.Chain([
      training_step, model_step, transform_step, endpoint_config_step, endpoint_step])
  \<close>
  A step has a state id and a kind (its class), and \<^verbatim>\<open>Chain\<close> appends the steps one by
  one, setting the \<^verbatim>\<open>next\<close> of the last chained step to the step appended.
\<close>

datatype step_kind = TrainingStep | ModelStep | TransformStep | EndpointConfigStep | EndpointStep

record step =
  state_id :: string
  kind :: step_kind
  next_step :: "string option"

definition training_step :: step where
  "training_step = \<lparr>state_id = ''Train Step'', kind = TrainingStep, next_step = None\<rparr>"

definition model_step :: step where
  "model_step = \<lparr>state_id = ''Save model'', kind = ModelStep, next_step = None\<rparr>"

definition transform_step :: step where
  "transform_step = \<lparr>state_id = ''Transform Input Dataset'', kind = TransformStep, next_step = None\<rparr>"

definition endpoint_config_step :: step where
  "endpoint_config_step =
     \<lparr>state_id = ''Create Endpoint Config'', kind = EndpointConfigStep, next_step = None\<rparr>"

definition endpoint_step :: step where
  "endpoint_step = \<lparr>state_id = ''Create Endpoint'', kind = EndpointStep, next_step = None\<rparr>"

definition chain_append :: "step list \<Rightarrow> step \<Rightarrow> step list" where
  "chain_append chained s =
     (if chained = [] then [s]
      else butlast chained @ [(last chained)\<lparr>next_step := Some (state_id s)\<rparr>, s])"

definition Chain :: "step list \<Rightarrow> step list" where
  "Chain ss = foldl chain_append [] ss"

definition workflow_definition :: "step list" where
  "workflow_definition =
     Chain [training_step, model_step, transform_step, endpoint_config_step, endpoint_step]"

text \<open>
  The order in which the workflow service runs a definition: from the first state,
  following \<^verbatim>\<open>Next\<close> until a state without one. The fuel bounds the walk by the number
  of states; a walk that has not ended by then has no order.
\<close>

fun run_from :: "nat \<Rightarrow> step list \<Rightarrow> string \<Rightarrow> step_kind list option" where
  "run_from 0 states sid = None"
| "run_from (Suc fuel) states sid =
     (case find (\<lambda>s. state_id s = sid) states of
        None \<Rightarrow> None
      | Some s \<Rightarrow>
          (case next_step s of
             None \<Rightarrow> Some [kind s]
           | Some nxt \<Rightarrow> map_option (\<lambda>ks. kind s # ks) (run_from fuel states nxt)))"

definition run_order :: "step list \<Rightarrow> step_kind list option" where
  "run_order states =
     (case states of [] \<Rightarrow> Some [] | s # _ \<Rightarrow> run_from (length states) states (state_id s))"

section \<open>Specification-side definitions\<close>

text \<open>
  What the imputation cell is meant to compute, in the words of the specification: the
  rows of one outcome class, the median of a column within a class, and a row with its
  zero entries in the five imputed columns replaced by the median of its own class.
\<close>

definition class_rows :: "dataframe \<Rightarrow> val \<Rightarrow> row list" where
  "class_rows df cls = filter (\<lambda>r. cell ''Outcome'' r = cls) (rows df)"

definition class_median :: "dataframe \<Rightarrow> string \<Rightarrow> val \<Rightarrow> val" where
  "class_median df c cls = np_median (map (cell c) (class_rows df cls))"

definition imputed_row :: "dataframe \<Rightarrow> row \<Rightarrow> row" where
  "imputed_row df r =
     (fst r, map (\<lambda>(k, x). (k, if k \<in> set columnsToImpute \<and> x = Num 0
                                 then class_median df k (cell ''Outcome'' r) else x)) (snd r))"

text \<open>A row whose outcome is one of the two classes the cell keeps.\<close>

definition binary_row :: "row \<Rightarrow> bool" where
  "binary_row r \<longleftrightarrow> cell ''Outcome'' r = Num 0 \<or> cell ''Outcome'' r = Num 1"

text \<open>
  The loop's effect on one frame: zeros in the columns \<open>cs\<close> are replaced by the
  median of the column taken over that frame.
\<close>

definition fill_zeros :: "string list \<Rightarrow> dataframe \<Rightarrow> dataframe" where
  "fill_zeros cs df =
     df\<lparr>rows := map (\<lambda>r. (fst r, map (\<lambda>(k, x). (k, if k \<in> set cs \<and> x = Num 0
                                 then np_median (map (cell k) (rows df)) else x)) (snd r))) (rows df)\<rparr>"

text \<open>
  The encoding cell, in the words of the code: the columns it encodes, in column order,
  and the names of the indicator columns that replace them.
\<close>

definition encoded_names :: "dataframe \<Rightarrow> string list" where
  "encoded_names df = filter (\<lambda>c. c = ''Pregnancies'' \<or> c = ''Outcome'') (col_names df)"

definition indicator_names :: "dataframe \<Rightarrow> string list" where
  "indicator_names df = concat (map (\<lambda>c. map (dummy_name c) (categories df c)) (encoded_names df))"

text \<open>
  The split cell: the rows in the order the seeded generator draws them, and the training
  rows of a result (none when the cell raised).
\<close>

definition shuffled_rows :: "(nat \<Rightarrow> nat \<Rightarrow> nat list) \<Rightarrow> dataframe \<Rightarrow> row list" where
  "shuffled_rows shuffle df = map (\<lambda>p. rows df ! p) (shuffle 1729 (length (rows df)))"

definition train_rows :: "error + (dataframe \<times> dataframe \<times> dataframe) \<Rightarrow> row list" where
  "train_rows res = (case res of Inl e \<Rightarrow> [] | Inr (train_data, validation_data, test_data) \<Rightarrow> rows train_data)"

text \<open>
  The export cell: the feature fields of a row are its values outside the two outcome
  indicator columns, in column order; a labelled line puts the value of
  \<^verbatim>\<open>Outcome_1\<close> in front of them.
\<close>

definition feature_fields :: "row \<Rightarrow> field list" where
  "feature_fields r =
     map (\<lambda>kv. Value (snd kv)) (filter (\<lambda>(k, x). k \<noteq> ''Outcome_0'' \<and> k \<noteq> ''Outcome_1'') (snd r))"

definition labelled_line :: "row \<Rightarrow> field list" where
  "labelled_line r = Value (cell ''Outcome_1'' r) # feature_fields r"

section \<open>Example frames\<close>

text \<open>
  Four rows in the layout of the diabetes dataset (the columns the cells touch, and a
  feature they leave alone), the same frame after the imputation cell, and the frame
  with a fifth row whose outcome is missing.
\<close>

definition example_data :: dataframe where
  "example_data =
     \<lparr>columns = [(''Pregnancies'', Numeric), (''Glucose'', Numeric), (''BloodPressure'', Numeric),
                 (''SkinThickness'', Numeric), (''Insulin'', Numeric), (''BMI'', Numeric),
                 (''Outcome'', Numeric)],
      rows = [(0, [(''Pregnancies'', Num 6), (''Glucose'', Num 148), (''BloodPressure'', Num 72),
                   (''SkinThickness'', Num 35), (''Insulin'', Num 0), (''BMI'', Num (168 / 5)),
                   (''Outcome'', Num 1)]),
              (1, [(''Pregnancies'', Num 1), (''Glucose'', Num 85), (''BloodPressure'', Num 66),
                   (''SkinThickness'', Num 29), (''Insulin'', Num 0), (''BMI'', Num (133 / 5)),
                   (''Outcome'', Num 0)]),
              (2, [(''Pregnancies'', Num 8), (''Glucose'', Num 183), (''BloodPressure'', Num 64),
                   (''SkinThickness'', Num 0), (''Insulin'', Num 0), (''BMI'', Num (233 / 10)),
                   (''Outcome'', Num 1)]),
              (3, [(''Pregnancies'', Num 1), (''Glucose'', Num 89), (''BloodPressure'', Num 66),
                   (''SkinThickness'', Num 23), (''Insulin'', Num 94), (''BMI'', Num (281 / 10)),
                   (''Outcome'', Num 0)])]\<rparr>"

definition example_imputed :: dataframe where
  "example_imputed =
     \<lparr>columns = [(''Pregnancies'', Numeric), (''Glucose'', Numeric), (''BloodPressure'', Numeric),
                 (''SkinThickness'', Numeric), (''Insulin'', Numeric), (''BMI'', Numeric),
                 (''Outcome'', Numeric)],
      rows = [(0, [(''Pregnancies'', Num 6), (''Glucose'', Num 148), (''BloodPressure'', Num 72),
                   (''SkinThickness'', Num 35), (''Insulin'', Num 0), (''BMI'', Num (168 / 5)),
                   (''Outcome'', Num 1)]),
              (2, [(''Pregnancies'', Num 8), (''Glucose'', Num 183), (''BloodPressure'', Num 64),
                   (''SkinThickness'', Num (35 / 2)), (''Insulin'', Num 0), (''BMI'', Num (233 / 10)),
                   (''Outcome'', Num 1)]),
              (1, [(''Pregnancies'', Num 1), (''Glucose'', Num 85), (''BloodPressure'', Num 66),
                   (''SkinThickness'', Num 29), (''Insulin'', Num 47), (''BMI'', Num (133 / 5)),
                   (''Outcome'', Num 0)]),
              (3, [(''Pregnancies'', Num 1), (''Glucose'', Num 89), (''BloodPressure'', Num 66),
                   (''SkinThickness'', Num 23), (''Insulin'', Num 94), (''BMI'', Num (281 / 10)),
                   (''Outcome'', Num 0)])]\<rparr>"

definition example_unlabelled :: dataframe where
  "example_unlabelled = example_data\<lparr>rows := rows example_data @
      [(4, [(''Pregnancies'', Num 0), (''Glucose'', Num 137), (''BloodPressure'', Num 40),
            (''SkinThickness'', Num 35), (''Insulin'', Num 168), (''BMI'', Num (431 / 10)),
            (''Outcome'', NaN)])]\<rparr>"

text \<open>The frame after the encoding cell.\<close>

definition example_model :: dataframe where
  "example_model =
     \<lparr>columns = [(''Glucose'', Numeric), (''BloodPressure'', Numeric), (''SkinThickness'', Numeric),
                 (''Insulin'', Numeric), (''BMI'', Numeric), (''Pregnancies_1'', Numeric),
                 (''Pregnancies_6'', Numeric), (''Pregnancies_8'', Numeric),
                 (''Outcome_0'', Numeric), (''Outcome_1'', Numeric)],
      rows = [(0, [(''Glucose'', Num 148), (''BloodPressure'', Num 72), (''SkinThickness'', Num 35),
                   (''Insulin'', Num 0), (''BMI'', Num (168 / 5)), (''Pregnancies_1'', Num 0),
                   (''Pregnancies_6'', Num 1), (''Pregnancies_8'', Num 0),
                   (''Outcome_0'', Num 0), (''Outcome_1'', Num 1)]),
              (2, [(''Glucose'', Num 183), (''BloodPressure'', Num 64), (''SkinThickness'', Num (35 / 2)),
                   (''Insulin'', Num 0), (''BMI'', Num (233 / 10)), (''Pregnancies_1'', Num 0),
                   (''Pregnancies_6'', Num 0), (''Pregnancies_8'', Num 1),
                   (''Outcome_0'', Num 0), (''Outcome_1'', Num 1)]),
              (1, [(''Glucose'', Num 85), (''BloodPressure'', Num 66), (''SkinThickness'', Num 29),
                   (''Insulin'', Num 47), (''BMI'', Num (133 / 5)), (''Pregnancies_1'', Num 1),
                   (''Pregnancies_6'', Num 0), (''Pregnancies_8'', Num 0),
                   (''Outcome_0'', Num 1), (''Outcome_1'', Num 0)]),
              (3, [(''Glucose'', Num 89), (''BloodPressure'', Num 66), (''SkinThickness'', Num 23),
                   (''Insulin'', Num 94), (''BMI'', Num (281 / 10)), (''Pregnancies_1'', Num 1),
                   (''Pregnancies_6'', Num 0), (''Pregnancies_8'', Num 0),
                   (''Outcome_0'', Num 1), (''Outcome_1'', Num 0)])]\<rparr>"

text \<open>
  A frame of ninety rows without columns, for the arithmetic of the split points, and a
  generator that draws the positions in reverse order, whatever its state.
\<close>

definition frame_90 :: dataframe where
  "frame_90 = \<lparr>columns = [], rows = map (\<lambda>i. (i, [])) [0..<90]\<rparr>"

definition rev_shuffle :: "nat \<Rightarrow> nat \<Rightarrow> nat list" where
  "rev_shuffle st n = rev [0..<n]"

text \<open>
  A generator whose draw depends on its state: the identity from state 0, the reverse
  otherwise.
\<close>

definition state_shuffle :: "nat \<Rightarrow> nat \<Rightarrow> nat list" where
  "state_shuffle st n = (if st = 0 then [0..<n] else rev [0..<n])"

section \<open>Lookup, selection and replacement\<close>

lemma map_of_replace_cells:
  "map_of (replace_cells c z v cs) k =
     (if k = c then map_option (\<lambda>x. if x = Num z then v else x) (map_of cs k) else map_of cs k)"
proof (induction cs)
  case Nil
  then show ?case by (simp add: replace_cells_def)
next
  case (Cons kx cs)
  then show ?case by (cases kx; cases "k = c") (simp_all add: replace_cells_def)
qed

lemma map_of_map_keyed:
  "map_of (map (\<lambda>(k, x). (k, f k x)) cs) k = map_option (f k) (map_of cs k)"
  by (induction cs) auto

lemma column_replace_other:
  "k \<noteq> c \<Longrightarrow> map (cell k) (rows (replace df c z v)) = map (cell k) (rows df)"
  by (simp add: replace_def cell_def map_of_replace_cells)

lemma getitem_present:
  "c \<in> set (col_names df) \<Longrightarrow>
     \<exists>t. getitem df c = Inr ((c, t), map (\<lambda>r. (fst r, cell c r)) (rows df))"
  by (cases "map_of (columns df) c") (auto simp: getitem_def col_names_def map_of_eq_None_iff)

lemma getitem_absent:
  assumes "c \<notin> set (col_names df)"
  shows "getitem df c = Inl (KeyError c)"
proof -
  have "map_of (columns df) c = None"
    using assms by (simp add: map_of_eq_None_iff col_names_def)
  then show ?thesis by (simp add: getitem_def)
qed

lemma series_values_getitem:
  "getitem df c = Inr s \<Longrightarrow> series_values s = map (cell c) (rows df)"
  by (auto simp: getitem_def series_values_def comp_def split: option.splits)

lemma col_names_replace [simp]: "col_names (replace df c z v) = col_names df"
  by (simp add: col_names_def replace_def)

lemma col_names_rows_update [simp]: "col_names (df\<lparr>rows := rs\<rparr>) = col_names df"
  by (simp add: col_names_def)

lemma loc_eq_present:
  "c \<in> set (col_names df) \<Longrightarrow>
     loc_eq df c z = Inr (df\<lparr>rows := filter (\<lambda>r. cell c r = Num z) (rows df)\<rparr>)"
  using getitem_present[of c df] by (auto simp: loc_eq_def)

lemma loc_eq_absent:
  "c \<notin> set (col_names df) \<Longrightarrow> loc_eq df c z = Inl (KeyError c)"
  by (simp add: loc_eq_def getitem_absent)

section \<open>The imputation loop\<close>

text \<open>
  The loop visits the columns one after the other and computes each median on the frame
  as the earlier iterations left it. Since an iteration only touches its own column, the
  medians are those of the frame the loop started from.
\<close>

lemma fill_zeros_Nil: "fill_zeros [] df = df"
  by (simp add: fill_zeros_def case_prod_unfold)

lemma fill_zeros_Cons:
  assumes "c \<notin> set cs"
  shows "fill_zeros cs (replace df c 0 (np_median (map (cell c) (rows df)))) = fill_zeros (c # cs) df"
proof -
  define m where "m = np_median (map (cell c) (rows df))"
  define df' where "df' = replace df c 0 m"
  have med: "map (cell k) (rows df') = map (cell k) (rows df)" if "k \<in> set cs" for k
    unfolding df'_def using that assms by (intro column_replace_other) auto
  have rows': "rows df' = map (\<lambda>r. (fst r, replace_cells c 0 m (snd r))) (rows df)"
    by (simp add: df'_def replace_def)
  have cell_eq: "(\<lambda>(k, x). (k, if k \<in> set cs \<and> x = Num 0
                       then np_median (map (cell k) (rows df')) else x))
                  ((\<lambda>(k, x). (k, if k = c \<and> x = Num 0 then m else x)) kx) =
                 (\<lambda>(k, x). (k, if k \<in> set (c # cs) \<and> x = Num 0
                       then np_median (map (cell k) (rows df)) else x)) kx" for kx
    using assms by (cases kx) (auto simp: med m_def)
  have "rows (fill_zeros cs df') = rows (fill_zeros (c # cs) df)"
    unfolding fill_zeros_def
    by (simp add: rows' replace_cells_def comp_def cell_eq del: set_simps)
  moreover have "columns (fill_zeros cs df') = columns (fill_zeros (c # cs) df)"
    by (simp add: fill_zeros_def df'_def replace_def)
  moreover have "dataframe.more (fill_zeros cs df') = dataframe.more (fill_zeros (c # cs) df)"
    by simp
  ultimately show ?thesis
    unfolding df'_def m_def by (intro dataframe.equality) auto
qed

lemma fill_zeros_rows_update [simp]: "(fill_zeros cs d)\<lparr>rows := X\<rparr> = d\<lparr>rows := X\<rparr>"
  by (simp add: fill_zeros_def)

lemma impute_loop_fill:
  "distinct cs \<Longrightarrow> set cs \<subseteq> set (col_names df1) \<Longrightarrow> set cs \<subseteq> set (col_names df2) \<Longrightarrow>
     impute_loop cs df1 df2 = Inr (fill_zeros cs df1, fill_zeros cs df2)"
proof (induction cs arbitrary: df1 df2)
  case Nil
  then show ?case by (simp add: fill_zeros_Nil)
next
  case (Cons c cs)
  obtain s1 where s1: "getitem df1 c = Inr s1" using getitem_present[of c df1] Cons.prems by auto
  obtain s2 where s2: "getitem df2 c = Inr s2" using getitem_present[of c df2] Cons.prems by auto
  have "impute_loop (c # cs) df1 df2 =
      impute_loop cs (replace df1 c 0 (np_median (map (cell c) (rows df1))))
                     (replace df2 c 0 (np_median (map (cell c) (rows df2))))"
    by (simp add: s1 s2 series_values_getitem[OF s1] series_values_getitem[OF s2])
  also have "\<dots> = Inr (fill_zeros cs (replace df1 c 0 (np_median (map (cell c) (rows df1)))),
                       fill_zeros cs (replace df2 c 0 (np_median (map (cell c) (rows df2)))))"
    using Cons.prems by (intro Cons.IH) auto
  also have "\<dots> = Inr (fill_zeros (c # cs) df1, fill_zeros (c # cs) df2)"
    using Cons.prems by (simp add: fill_zeros_Cons)
  finally show ?case .
qed

lemma impute_loop_Inr_cols:
  "impute_loop cs df1 df2 = Inr x \<Longrightarrow> set cs \<subseteq> set (col_names df1)"
proof (induction cs arbitrary: df1 df2)
  case Nil
  then show ?case by simp
next
  case (Cons c cs)
  have c: "c \<in> set (col_names df1)"
  proof (rule ccontr)
    assume "c \<notin> set (col_names df1)"
    then have "getitem df1 c = Inl (KeyError c)" by (rule getitem_absent)
    with Cons.prems show False by simp
  qed
  from Cons.prems obtain df1' df2' where *: "impute_loop cs df1' df2' = Inr x"
      and **: "col_names df1' = col_names df1"
    by (auto simp: Let_def split: sum.splits)
  from Cons.IH[OF *] ** have "set cs \<subseteq> set (col_names df1)" by simp
  with c show ?case by simp
qed

lemma rows_fill_zeros_class:
  "rows (fill_zeros columnsToImpute (df\<lparr>rows := class_rows df cls\<rparr>)) =
     map (imputed_row df) (class_rows df cls)"
proof -
  have "cell ''Outcome'' r = cls" if "r \<in> set (class_rows df cls)" for r
    using that by (simp add: class_rows_def)
  then show ?thesis
    by (auto simp: fill_zeros_def imputed_row_def class_median_def)
qed

section \<open>Properties of the imputation cell\<close>

text \<open>
  When the five columns and \<^verbatim>\<open>Outcome\<close> exist the cell returns the class-1 rows followed
  by the class-0 rows, each imputed with the medians of its class; when it returns at all,
  those columns exist.
\<close>

lemma impute_present:
  assumes "set columnsToImpute \<subseteq> set (col_names df)" and "''Outcome'' \<in> set (col_names df)"
  shows "impute df =
     Inr (df\<lparr>rows := map (imputed_row df) (class_rows df (Num 1) @ class_rows df (Num 0))\<rparr>)"
proof -
  let ?df1 = "df\<lparr>rows := class_rows df (Num 1)\<rparr>"
  let ?df2 = "df\<lparr>rows := class_rows df (Num 0)\<rparr>"
  have l1: "loc_eq df ''Outcome'' 1 = Inr ?df1" and l2: "loc_eq df ''Outcome'' 0 = Inr ?df2"
    using assms(2) by (simp_all add: loc_eq_present class_rows_def)
  have d: "distinct columnsToImpute" by (simp add: columnsToImpute_def)
  have loop: "impute_loop columnsToImpute ?df1 ?df2 =
      Inr (fill_zeros columnsToImpute ?df1, fill_zeros columnsToImpute ?df2)"
    using assms(1) d by (intro impute_loop_fill) simp_all
  have cols: "fill_zeros columnsToImpute ?df1 = df\<lparr>rows := rows (fill_zeros columnsToImpute ?df1)\<rparr>"
    by (simp add: fill_zeros_def)
  show ?thesis
    by (simp add: impute_def l1 l2 loop concat2_def rows_fill_zeros_class)
qed

lemma impute_Inr_cols:
  assumes "impute df = Inr out"
  shows "set columnsToImpute \<subseteq> set (col_names df) \<and> ''Outcome'' \<in> set (col_names df)"
proof -
  have o: "''Outcome'' \<in> set (col_names df)"
  proof (rule ccontr)
    assume "''Outcome'' \<notin> set (col_names df)"
    then have "impute df = Inl (KeyError ''Outcome'')" by (simp add: impute_def loc_eq_absent)
    with assms show False by simp
  qed
  from assms obtain x where "impute_loop columnsToImpute (df\<lparr>rows := filter (\<lambda>r. cell ''Outcome'' r = Num 1) (rows df)\<rparr>)
      (df\<lparr>rows := filter (\<lambda>r. cell ''Outcome'' r = Num 0) (rows df)\<rparr>) = Inr x"
    by (auto simp: impute_def loc_eq_present[OF o] split: sum.splits)
  from impute_loop_Inr_cols[OF this] o show ?thesis by simp
qed

lemma impute_Inr_rows:
  assumes "impute df = Inr out"
  shows "rows out = map (imputed_row df) (class_rows df (Num 1) @ class_rows df (Num 0))"
    and "columns out = columns df"
  using impute_Inr_cols[OF assms] impute_present[of df] assms by auto

lemma cell_Outcome_imputed_row [simp]: "cell ''Outcome'' (imputed_row df r) = cell ''Outcome'' r"
  by (simp add: cell_def imputed_row_def map_of_map_keyed columnsToImpute_def split: option.splits)

lemma fst_imputed_row [simp]: "fst (imputed_row df r) = fst r"
  by (simp add: imputed_row_def)

lemma mset_filter_two:
  "mset (filter (\<lambda>r. cell ''Outcome'' r = Num 1) xs @ filter (\<lambda>r. cell ''Outcome'' r = Num 0) xs) =
     filter_mset binary_row (mset xs)"
  by (induction xs) (auto simp: binary_row_def)

lemma mset_class_rows:
  "mset (class_rows df (Num 1) @ class_rows df (Num 0)) = filter_mset binary_row (mset (rows df))"
  unfolding class_rows_def by (rule mset_filter_two)

lemma length_filter_eq_iff: "length (filter P xs) = length xs \<longleftrightarrow> (\<forall>x\<in>set xs. P x)"
proof (induction xs)
  case Nil
  then show ?case by simp
next
  case (Cons x xs)
  have "length (filter P xs) \<noteq> Suc (length xs)"
    using length_filter_le[of P xs] by linarith
  with Cons show ?case by auto
qed

lemma example_cols:
  "set columnsToImpute \<subseteq> set (col_names example_data)" "''Outcome'' \<in> set (col_names example_data)"
  by (simp_all add: columnsToImpute_def col_names_def example_data_def)

lemma impute_example: "impute example_data = Inr example_imputed"
  unfolding impute_present[OF example_cols]
  by (simp add: example_data_def example_imputed_def class_rows_def cell_def imputed_row_def
      class_median_def np_median_def columnsToImpute_def)

lemma impute_example_unlabelled: "impute example_unlabelled = Inr example_imputed"
proof -
  have cols: "set columnsToImpute \<subseteq> set (col_names example_unlabelled)"
    "''Outcome'' \<in> set (col_names example_unlabelled)"
    by (simp_all add: columnsToImpute_def col_names_def example_data_def example_unlabelled_def)
  show ?thesis
    unfolding impute_present[OF cols]
    by (simp add: example_data_def example_unlabelled_def example_imputed_def class_rows_def cell_def imputed_row_def
      class_median_def np_median_def columnsToImpute_def)
qed




text \<open>
  Claim C8. In the output of the imputation cell every row whose outcome is 1 stands
  before every row whose outcome is 0, whatever the order of the input.
\<close>

theorem impute_class_one_first:
  assumes "impute df = Inr out" and "i < length (rows out)" and "j < length (rows out)"
    and "cell ''Outcome'' (rows out ! i) = Num 1" and "cell ''Outcome'' (rows out ! j) = Num 0"
  shows "i < j"
proof -
  define xs1 where "xs1 = map (imputed_row df) (class_rows df (Num 1))"
  define xs0 where "xs0 = map (imputed_row df) (class_rows df (Num 0))"
  have out: "rows out = xs1 @ xs0"
    using impute_Inr_rows(1)[OF assms(1)] by (simp add: xs1_def xs0_def)
  have c1: "cell ''Outcome'' r = Num 1" if "r \<in> set xs1" for r
    using that by (auto simp: xs1_def class_rows_def)
  have c0: "cell ''Outcome'' r = Num 0" if "r \<in> set xs0" for r
    using that by (auto simp: xs0_def class_rows_def)
  have "i < length xs1"
  proof (rule ccontr)
    assume "\<not> i < length xs1"
    then have "rows out ! i = xs0 ! (i - length xs1)" and "i - length xs1 < length xs0"
      using assms(2) out by (auto simp: nth_append)
    then have "rows out ! i \<in> set xs0" by (metis nth_mem)
    from c0[OF this] assms(4) show False by simp
  qed
  moreover have "\<not> j < length xs1"
  proof
    assume "j < length xs1"
    then have "rows out ! j \<in> set xs1" using out by (simp add: nth_append)
    from c1[OF this] assms(5) show False by simp
  qed
  ultimately show ?thesis by simp
qed

theorem impute_class_one_first_witness:
  "impute example_data = Inr example_imputed \<and> 1 < length (rows example_imputed) \<and>
   2 < length (rows example_imputed) \<and> cell ''Outcome'' (rows example_imputed ! 1) = Num 1 \<and>
   cell ''Outcome'' (rows example_imputed ! 2) = Num 0 \<and> (1::nat) < 2"
proof -
  have a: "1 < length (rows example_imputed)" "2 < length (rows example_imputed)"
    by (simp_all add: example_imputed_def)
  have b: "cell ''Outcome'' (rows example_imputed ! 1) = Num 1"
    "cell ''Outcome'' (rows example_imputed ! 2) = Num 0"
    by (simp_all add: example_imputed_def cell_def)
  from impute_class_one_first[OF impute_example a b] impute_example a b show ?thesis by blast
qed

text \<open>
  Claim C9. The output of the imputation cell is built from exactly the input rows whose
  outcome is 0 or 1: rows with any other outcome are dropped, and the number of rows is
  preserved exactly when every input row has outcome 0 or 1.
\<close>

theorem impute_drops_other_classes:
  assumes "impute df = Inr out"
  shows "mset (rows out) = image_mset (imputed_row df) (filter_mset binary_row (mset (rows df))) \<and>
         (length (rows out) = length (rows df) \<longleftrightarrow> (\<forall>r\<in>set (rows df). binary_row r))"
proof -
  have m: "mset (rows out) = image_mset (imputed_row df) (filter_mset binary_row (mset (rows df)))"
    using impute_Inr_rows(1)[OF assms] mset_class_rows[of df]
    by (simp del: mset_append map_append)
  have "length (rows out) = size (mset (rows out))" by simp
  also have "\<dots> = length (filter binary_row (rows df))"
    unfolding m by (simp flip: mset_filter)
  finally have "length (rows out) = length (filter binary_row (rows df))" .
  with m show ?thesis by (simp add: length_filter_eq_iff)
qed

theorem impute_drops_other_classes_witness:
  "impute example_unlabelled = Inr example_imputed \<and>
   mset (rows example_imputed) =
     image_mset (imputed_row example_unlabelled) (filter_mset binary_row (mset (rows example_unlabelled))) \<and>
   length (rows example_imputed) = 4 \<and> length (rows example_unlabelled) = 5 \<and>
   \<not> (\<forall>r\<in>set (rows example_unlabelled). binary_row r)"
proof -
  have "length (rows example_imputed) = 4" "length (rows example_unlabelled) = 5"
    by (simp_all add: example_imputed_def example_unlabelled_def example_data_def)
  with impute_drops_other_classes[OF impute_example_unlabelled] impute_example_unlabelled
  show ?thesis by simp
qed

section \<open>Binary64 rounding of the split points\<close>

text \<open>
  Rounding to 53 significant bits moves a number by at most one part in \<open>2^52\<close>. That is
  enough to order the two split points and to bound them by the length.
\<close>

lemma bit_length_bounds:
  "0 < n \<Longrightarrow> 2 ^ (bit_length n - 1) \<le> n \<and> n < 2 ^ bit_length n"
proof (induction n rule: bit_length.induct)
  case (1 n)
  show ?case
  proof (cases "n div 2 = 0")
    case True
    with "1.prems" have "n = 1" by (simp add: div_eq_0_iff) 
    moreover have "bit_length (Suc 0) = Suc 0"
      by (simp add: bit_length.simps[of "Suc 0"] bit_length.simps[of 0])
    ultimately show ?thesis by simp
  next
    case False
    then have pos: "0 < n div 2" by simp
    from "1.IH" "1.prems" pos
    have ih: "2 ^ (bit_length (n div 2) - 1) \<le> n div 2" "n div 2 < 2 ^ bit_length (n div 2)"
      by auto
    have bl: "bit_length n = Suc (bit_length (n div 2))"
      using "1.prems" by (subst bit_length.simps) simp
    have blpos: "0 < bit_length (n div 2)"
      using pos by (subst bit_length.simps) simp
    then obtain k where k: "bit_length (n div 2) = Suc k" by (cases "bit_length (n div 2)") auto
    have "2 * 2 ^ k \<le> n" using ih(1) k by simp
    moreover have "n < 2 * 2 ^ Suc k" using ih(2) k by simp
    ultimately show ?thesis by (simp add: bl k)
  qed
qed

lemma rne53_large:
  assumes "\<not> p < 2 ^ 53"
  defines "s \<equiv> bit_length p - 53"
  shows "2 ^ s * 2 ^ 52 \<le> p"
    and "rne53 p = (p div 2 ^ s) * 2 ^ s \<or> rne53 p = (p div 2 ^ s + 1) * 2 ^ s"
proof -
  from assms(1) have ppos: "0 < p" by simp
  have b: "2 ^ (bit_length p - 1) \<le> p" "p < 2 ^ bit_length p"
    using bit_length_bounds[OF ppos] by auto
  have "\<not> bit_length p \<le> 53"
  proof
    assume "bit_length p \<le> 53"
    then have "(2::nat) ^ bit_length p \<le> 2 ^ 53" by (intro power_increasing) auto
    with b(2) assms(1) show False by simp
  qed
  then have "bit_length p - 1 = s + 52" by (simp add: s_def)
  with b(1) show "2 ^ s * 2 ^ 52 \<le> p" by (simp add: power_add)
  show "rne53 p = (p div 2 ^ s) * 2 ^ s \<or> rne53 p = (p div 2 ^ s + 1) * 2 ^ s"
    using assms(1) by (simp add: rne53_def Let_def s_def)
qed

lemma rne53_bounds:
  "rne53 p * 2 ^ 52 \<le> p * (2 ^ 52 + 1) \<and> p * 2 ^ 52 \<le> rne53 p * 2 ^ 52 + p"
proof (cases "p < 2 ^ 53")
  case True
  then show ?thesis by (simp add: rne53_def)
next
  case False
  define s where "s = bit_length p - 53"
  define q where "q = p div 2 ^ s"
  define r where "r = p mod 2 ^ s"
  have lo: "2 ^ s * 2 ^ 52 \<le> p" and cases: "rne53 p = q * 2 ^ s \<or> rne53 p = (q + 1) * 2 ^ s"
    using rne53_large[OF False] by (simp_all add: s_def q_def)
  have pq: "p = q * 2 ^ s + r" unfolding q_def r_def by (rule div_mult_mod_eq[symmetric])
  have rlt: "r < 2 ^ s" by (simp add: r_def)
  have up: "rne53 p \<le> p + 2 ^ s" using cases pq by (auto simp: algebra_simps)
  have dn: "p \<le> rne53 p + 2 ^ s" using cases pq rlt by (auto simp: algebra_simps)
  have "rne53 p * 2 ^ 52 \<le> (p + 2 ^ s) * 2 ^ 52" using up by simp
  also have "\<dots> = p * 2 ^ 52 + 2 ^ s * 2 ^ 52" by (simp add: algebra_simps)
  also have "\<dots> \<le> p * 2 ^ 52 + p" using lo by simp
  finally have U: "rne53 p * 2 ^ 52 \<le> p * (2 ^ 52 + 1)" by (simp add: algebra_simps)
  have "p * 2 ^ 52 \<le> (rne53 p + 2 ^ s) * 2 ^ 52" using dn by simp
  also have "\<dots> = rne53 p * 2 ^ 52 + 2 ^ s * 2 ^ 52" by (simp add: algebra_simps)
  also have "\<dots> \<le> rne53 p * 2 ^ 52 + p" using lo by simp
  finally have L: "p * 2 ^ 52 \<le> rne53 p * 2 ^ 52 + p" .
  from U L show ?thesis by blast
qed

lemma split_points_le: "int_fmul float_0_7 n \<le> int_fmul float_0_9 n"
proof -
  define N where "N = rne53 n"
  define A where "A = rne53 (float_0_7 * N)"
  define B where "B = rne53 (float_0_9 * N)"
  have a: "A * 2 ^ 52 \<le> (float_0_7 * N) * (2 ^ 52 + 1)"
    unfolding A_def using rne53_bounds[of "float_0_7 * N"] by blast
  have b: "(float_0_9 * N) * 2 ^ 52 \<le> B * 2 ^ 52 + float_0_9 * N"
    unfolding B_def using rne53_bounds[of "float_0_9 * N"] by blast
  have "A * 2 ^ 52 \<le> B * 2 ^ 52"
    using a b by (simp add: float_0_7_def float_0_9_def)
  then have "A \<le> B" by simp
  then show ?thesis
    unfolding int_fmul_def A_def B_def N_def by (rule div_le_mono)
qed

lemma split_point_le_len: "int_fmul float_0_9 n \<le> n"
proof -
  define N where "N = rne53 n"
  define B where "B = rne53 (float_0_9 * N)"
  have n: "N * 2 ^ 52 \<le> n * (2 ^ 52 + 1)"
    unfolding N_def using rne53_bounds[of n] by blast
  have b: "B * 2 ^ 52 \<le> (float_0_9 * N) * (2 ^ 52 + 1)"
    unfolding B_def using rne53_bounds[of "float_0_9 * N"] by blast
  have "B * 2 ^ 52 * 2 ^ 52 \<le> (float_0_9 * (2 ^ 52 + 1)) * (N * 2 ^ 52)"
    using mult_le_mono1[OF b, of "2 ^ 52"] by (simp add: algebra_simps)
  also have "\<dots> \<le> (float_0_9 * (2 ^ 52 + 1)) * (n * (2 ^ 52 + 1))"
    using n by (intro mult_le_mono2)
  also have "\<dots> \<le> (2 ^ 53 * n) * (2 ^ 52 * 2 ^ 52)"
    by (simp add: float_0_9_def)
  finally have "B * (2 ^ 52 * 2 ^ 52) \<le> (2 ^ 53 * n) * (2 ^ 52 * 2 ^ 52)"
    by (simp add: algebra_simps)
  then have "B \<le> 2 ^ 53 * n" by simp
  then have "B div 2 ^ 53 \<le> (2 ^ 53 * n) div 2 ^ 53" by (rule div_le_mono)
  then have "B div 2 ^ 53 \<le> n" by simp
  then show ?thesis by (simp add: int_fmul_def B_def N_def)
qed

text \<open>Ninety rows: \<^verbatim>\<open>0.7 * 90\<close> is 62.99999999999999 in binary64.\<close>

lemma int_fmul_0_7_90: "int_fmul float_0_7 90 = 62"
  by (simp add: int_fmul_def rne53_def float_0_7_def bit_length.simps Let_def)

text \<open>
  The diabetes dataset has 768 rows: 537 go to training, 154 to validation and 77 to
  test, the split points being the exact floors there.
\<close>

lemma int_fmul_768: "int_fmul float_0_7 768 = 537 \<and> int_fmul float_0_9 768 = 691"
  by (simp add: int_fmul_def rne53_def float_0_7_def float_0_9_def bit_length.simps Let_def)

lemma rne53_ge_multiple:
  assumes "j < 2 ^ 53" and "j * 2 ^ t \<le> p"
  shows "j * 2 ^ t \<le> rne53 p"
proof (cases "p < 2 ^ 53")
  case True
  then show ?thesis using assms(2) by (simp add: rne53_def)
next
  case False
  define s where "s = bit_length p - 53"
  define q where "q = p div 2 ^ s"
  have lo: "2 ^ s * 2 ^ 52 \<le> p" and cases: "rne53 p = q * 2 ^ s \<or> rne53 p = (q + 1) * 2 ^ s"
    using rne53_large[OF False] by (simp_all add: s_def q_def)
  have ge: "q * 2 ^ s \<le> rne53 p" using cases by auto
  have "j * 2 ^ t \<le> q * 2 ^ s"
  proof (cases "s \<le> t")
    case True
    then have t: "t = (t - s) + s" by simp
    have eq: "j * 2 ^ t = (j * 2 ^ (t - s)) * 2 ^ s"
      by (subst t) (simp add: power_add)
    have "(j * 2 ^ (t - s)) * 2 ^ s \<le> p"
      using assms(2) by (simp only: eq[symmetric])
    then have "j * 2 ^ (t - s) \<le> q"
      unfolding q_def by (simp add: less_eq_div_iff_mult_less_eq)
    then have "(j * 2 ^ (t - s)) * 2 ^ s \<le> q * 2 ^ s" by simp
    then show ?thesis by (simp only: eq)
  next
    case False
    then have "t + 1 \<le> s" by simp
    have "(2::nat) ^ 52 * 2 ^ s \<le> p" using lo by (simp add: mult.commute)
    then have q52: "2 ^ 52 \<le> q" unfolding q_def by (simp add: less_eq_div_iff_mult_less_eq)
    have "j * 2 ^ t \<le> 2 ^ 53 * 2 ^ t" using assms(1) by simp
    also have "\<dots> = 2 ^ 52 * 2 ^ (t + 1)" by simp
    also have "\<dots> \<le> 2 ^ 52 * 2 ^ s"
      using \<open>t + 1 \<le> s\<close> by (intro mult_le_mono2 power_increasing) auto
    also have "\<dots> \<le> q * 2 ^ s" using q52 by simp
    finally show ?thesis .
  qed
  with ge show ?thesis by simp
qed

lemma rne53_small: "n < 2 ^ 53 \<Longrightarrow> rne53 n = n"
  by (simp add: rne53_def)

text \<open>
  For the lengths a frame can have, the second split point is the exact \<open>\<lfloor>0.9 n\<rfloor>\<close>; the
  first is \<open>\<lfloor>0.7 n\<rfloor>\<close> or one less, and one less only when \<open>n\<close> is a multiple of ten (the
  binary64 nearest to 0.7 lies below 0.7, so the product can round to just below an
  integer).
\<close>

lemma split_points_exact:
  assumes "n < 2 ^ 48"
  shows "int_fmul float_0_9 n = 9 * n div 10"
    and "int_fmul float_0_7 n \<le> 7 * n div 10"
    and "7 * n div 10 \<le> int_fmul float_0_7 n + 1"
    and "n mod 10 \<noteq> 0 \<Longrightarrow> int_fmul float_0_7 n = 7 * n div 10"
proof -
  have N: "rne53 n = n" using assms by (simp add: rne53_small)
  define A where "A = rne53 (float_0_7 * n)"
  define B where "B = rne53 (float_0_9 * n)"
  define k where "k = 7 * n div 10"
  define r where "r = 7 * n mod 10"
  define k' where "k' = 9 * n div 10"
  define r' where "r' = 9 * n mod 10"
  have kr: "7 * n = 10 * k + r" "r < 10" by (simp_all add: k_def r_def)
  have kr': "9 * n = 10 * k' + r'" "r' < 10" by (simp_all add: k'_def r'_def)
  have a: "A * 2 ^ 52 \<le> (float_0_7 * n) * (2 ^ 52 + 1)"
    "(float_0_7 * n) * 2 ^ 52 \<le> A * 2 ^ 52 + float_0_7 * n"
    unfolding A_def using rne53_bounds[of "float_0_7 * n"] by blast+
  have b: "B * 2 ^ 52 \<le> (float_0_9 * n) * (2 ^ 52 + 1)"
    unfolding B_def using rne53_bounds[of "float_0_9 * n"] by blast
  have k'lt: "k' < 2 ^ 53" using kr' assms by simp
  have "k' * 2 ^ 53 \<le> float_0_9 * n" using kr' by (simp add: float_0_9_def)
  then have Bge: "k' * 2 ^ 53 \<le> B" unfolding B_def by (rule rne53_ge_multiple[OF k'lt])
  have Blt: "B < (k' + 1) * 2 ^ 53"
    using b kr' assms by (simp add: float_0_9_def)
  have "B div 2 ^ 53 = k'"
    using Bge Blt by (intro div_nat_eqI) (simp_all add: mult.commute)
  then show "int_fmul float_0_9 n = 9 * n div 10"
    by (simp add: int_fmul_def N B_def k'_def)
  have Alt: "A < (k + 1) * 2 ^ 53"
    using a(1) kr assms by (simp add: float_0_7_def)
  then have "A div 2 ^ 53 < k + 1" by (simp add: less_mult_imp_div_less)
  then show "int_fmul float_0_7 n \<le> 7 * n div 10"
    by (simp add: int_fmul_def N A_def k_def)
  have Age: "k * 2 ^ 53 \<le> A + 2 ^ 53"
    using a(2) kr assms by (simp add: float_0_7_def)
  have "k \<le> A div 2 ^ 53 + 1"
  proof -
    have "k * 2 ^ 53 \<le> (A + 2 ^ 53)" by (rule Age)
    then have "k \<le> (A + 2 ^ 53) div 2 ^ 53" by (simp add: less_eq_div_iff_mult_less_eq)
    then show ?thesis by simp
  qed
  then show "7 * n div 10 \<le> int_fmul float_0_7 n + 1"
    by (simp add: int_fmul_def N A_def k_def)
  show "int_fmul float_0_7 n = 7 * n div 10" if "n mod 10 \<noteq> 0"
  proof -
    have "7 * n mod 10 \<noteq> 0" using that by presburger
    then have "1 \<le> r" by (simp add: r_def)
    have "k * 2 ^ 53 \<le> A"
      using a(2) kr assms \<open>1 \<le> r\<close> by (simp add: float_0_7_def)
    then have "k \<le> A div 2 ^ 53" by (simp add: less_eq_div_iff_mult_less_eq)
    moreover have "A div 2 ^ 53 \<le> k" using \<open>A div 2 ^ 53 < k + 1\<close> by simp
    ultimately show ?thesis by (simp add: int_fmul_def N A_def k_def)
  qed
qed

section \<open>Properties of the encoding cell\<close>

lemma astype_category_present:
  assumes "set cs \<subseteq> set (col_names df)"
  shows "astype_category df cs =
     Inr (df\<lparr>columns := map (\<lambda>(k, t). (k, if k \<in> set cs then Category else t)) (columns df)\<rparr>)"
proof -
  have "filter (\<lambda>c. c \<notin> set (col_names df)) cs = []"
    using assms by (auto simp: filter_empty_conv)
  then show ?thesis by (simp add: astype_category_def)
qed

lemma encoded_columns_astype:
  assumes "list_all (\<lambda>(k, t). t = Numeric) cols"
  shows "map fst (filter (\<lambda>(k, t). t = Category)
            (map (\<lambda>(k, t). (k, if k \<in> S then Category else t)) cols)) =
         filter (\<lambda>k. k \<in> S) (map fst cols)"
  using assms by (induction cols) (auto split: if_splits)

lemma kept_columns_astype:
  assumes "list_all (\<lambda>(k, t). t = Numeric) cols"
  shows "filter (\<lambda>(k, t). t \<noteq> Category)
            (map (\<lambda>(k, t). (k, if k \<in> S then Category else t)) cols) =
         filter (\<lambda>(k, t). k \<notin> S) cols"
  using assms by (induction cols) (auto split: if_splits)

lemma categories_columns_update [simp]: "categories (df\<lparr>columns := cs\<rparr>) c = categories df c"
  by (simp add: categories_def)

lemma dummies_for_columns_update [simp]: "dummies_for (df\<lparr>columns := cs\<rparr>) c r = dummies_for df c r"
  by (simp add: dummies_for_def)

lemma one_hot_present:
  assumes "''Pregnancies'' \<in> set (col_names df)" and "''Outcome'' \<in> set (col_names df)"
    and "list_all (\<lambda>(k, t). t = Numeric) (columns df)"
  shows "one_hot df =
     Inr \<lparr>columns = filter (\<lambda>(k, t). k \<noteq> ''Pregnancies'' \<and> k \<noteq> ''Outcome'') (columns df) @
                     map (\<lambda>n. (n, Numeric)) (indicator_names df),
          rows = map (\<lambda>r. (fst r, filter (\<lambda>(k, x). k \<noteq> ''Pregnancies'' \<and> k \<noteq> ''Outcome'') (snd r) @
                                  concat (map (\<lambda>c. dummies_for df c r) (encoded_names df))))
                     (rows df)\<rparr>"
proof -
  let ?S = "set [''Pregnancies'', ''Outcome'']"
  have a: "astype_category df [''Pregnancies'', ''Outcome''] =
      Inr (df\<lparr>columns := map (\<lambda>(k, t). (k, if k \<in> ?S then Category else t)) (columns df)\<rparr>)"
    using assms(1,2) by (intro astype_category_present) simp
  have enc: "encoded_columns (df\<lparr>columns := map (\<lambda>(k, t). (k, if k \<in> ?S then Category else t)) (columns df)\<rparr>)
      = encoded_names df"
    unfolding encoded_columns_def encoded_names_def col_names_def
    using encoded_columns_astype[OF assms(3), of ?S]
    by (simp add: disj_commute)
  have keep: "filter (\<lambda>(k, t). t \<noteq> Category) (map (\<lambda>(k, t). (k, if k \<in> ?S then Category else t)) (columns df))
      = filter (\<lambda>(k, t). k \<noteq> ''Pregnancies'' \<and> k \<noteq> ''Outcome'') (columns df)"
    using kept_columns_astype[OF assms(3), of ?S] by simp
  have mem: "(k \<notin> set (encoded_names df)) = (k \<noteq> ''Pregnancies'' \<and> k \<noteq> ''Outcome'')" for k
    using assms(1,2) by (auto simp: encoded_names_def)
  show ?thesis
    unfolding one_hot_def a
    by (simp add: get_dummies_def Let_def enc keep indicator_names_def mem map_concat comp_def
        del: set_simps)
qed

lemma one_hot_Inr:
  assumes "''Pregnancies'' \<in> set (col_names df)" and "''Outcome'' \<in> set (col_names df)"
  shows "\<exists>md. one_hot df = Inr md"
  using astype_category_present[of "[''Pregnancies'', ''Outcome'']" df] assms
  by (simp add: one_hot_def)

lemma map_of_filter_keys:
  "P c \<Longrightarrow> map_of (filter (\<lambda>(k, x). P k) cs) c = map_of cs c"
  by (induction cs) auto

lemma cell_kept:
  assumes "P c" and "c \<in> fst ` set cs"
  shows "cell c (i, filter (\<lambda>(k, x). P k) cs @ ds) = cell c (j, cs)"
proof -
  from assms(2) obtain v where v: "map_of cs c = Some v"
    by (cases "map_of cs c") (auto simp: map_of_eq_None_iff)
  then have "map_of (filter (\<lambda>(k, x). P k) cs) c = Some v"
    using assms(1) by (simp add: map_of_filter_keys)
  then show ?thesis using v by (simp add: cell_def map_add_def)
qed

lemma dummy_name_neq [simp]:
  "dummy_name ''Pregnancies'' q \<noteq> ''Pregnancies''" "dummy_name ''Pregnancies'' q \<noteq> ''Outcome''"
  "dummy_name ''Outcome'' q \<noteq> ''Pregnancies''" "dummy_name ''Outcome'' q \<noteq> ''Outcome''"
  by (simp_all add: dummy_name_def)

lemma indicator_names_not_encoded:
  "''Pregnancies'' \<notin> set (indicator_names df)" "''Outcome'' \<notin> set (indicator_names df)"
  by (auto simp: indicator_names_def encoded_names_def dummy_name_neq[THEN not_sym])

lemma one_hot_example: "one_hot example_imputed = Inr example_model"
proof -
  have c: "''Pregnancies'' \<in> set (col_names example_imputed)" "''Outcome'' \<in> set (col_names example_imputed)"
    "list_all (\<lambda>(k, t). t = Numeric) (columns example_imputed)"
    by (simp_all add: example_imputed_def col_names_def)
  have cats: "categories example_imputed ''Pregnancies'' = [1, 6, 8]"
    "categories example_imputed ''Outcome'' = [0, 1]"
    by (simp_all add: categories_def example_imputed_def cell_def)
  have names: "level_str 0 = ''0''" "level_str 1 = ''1''" "level_str 6 = ''6''" "level_str 8 = ''8''"
    by (simp_all add: level_str_def str_int_def str_nat.simps)
  have enc: "encoded_names example_imputed = [''Pregnancies'', ''Outcome'']"
    by (simp add: encoded_names_def example_imputed_def col_names_def)
  show ?thesis
    unfolding one_hot_present[OF c]
    by (simp add: indicator_names_def enc cats dummy_name_def names dummies_for_def)
       (simp add: example_imputed_def example_model_def cell_def)
qed

lemma example_imputed_wf:
  "wf_df example_imputed" "list_all (\<lambda>(k, t). t = Numeric) (columns example_imputed)"
  "''Pregnancies'' \<in> set (col_names example_imputed)" "''Outcome'' \<in> set (col_names example_imputed)"
  by (simp_all add: wf_df_def example_imputed_def col_names_def)

text \<open>
  Claim C4, as stated, fails: the cell casts two columns to \<^verbatim>\<open>category\<close>, so
  \<^verbatim>\<open>get_dummies\<close> encodes \<^verbatim>\<open>Outcome\<close> as well as \<^verbatim>\<open>Pregnancies\<close>. On the example frame the
  column \<^verbatim>\<open>Outcome\<close>, which is not \<^verbatim>\<open>Pregnancies\<close>, is no column of the result.
\<close>

theorem one_hot_removes_outcome:
  "one_hot example_imputed = Inr example_model \<and> ''Outcome'' \<noteq> ''Pregnancies'' \<and>
   ''Outcome'' \<in> set (col_names example_imputed) \<and> ''Outcome'' \<notin> set (col_names example_model)"
  using one_hot_example by (simp add: example_imputed_def example_model_def col_names_def)

text \<open>
  Claim C4, amended. On a well-formed numeric frame that has the columns \<^verbatim>\<open>Pregnancies\<close>
  and \<^verbatim>\<open>Outcome\<close>, the encoding cell returns; it encodes exactly these two columns: both
  leave the frame, and for each of their levels an indicator column is appended that
  holds 1 in the rows of that level and 0 elsewhere. Every other column stays, in its
  place and with its values, and the rows keep their order and index.
\<close>

theorem one_hot_encodes_two_columns:
  assumes "wf_df df" and "list_all (\<lambda>(k, t). t = Numeric) (columns df)"
    and "''Pregnancies'' \<in> set (col_names df)" and "''Outcome'' \<in> set (col_names df)"
  shows "\<exists>md. one_hot df = Inr md \<and>
           col_names md =
             filter (\<lambda>c. c \<noteq> ''Pregnancies'' \<and> c \<noteq> ''Outcome'') (col_names df) @ indicator_names df \<and>
           ''Pregnancies'' \<notin> set (col_names md) \<and> ''Outcome'' \<notin> set (col_names md) \<and>
           map fst (rows md) = map fst (rows df) \<and>
           (\<forall>c\<in>set (col_names df). c \<noteq> ''Pregnancies'' \<and> c \<noteq> ''Outcome'' \<longrightarrow>
              c \<in> set (col_names md) \<and> map (cell c) (rows md) = map (cell c) (rows df)) \<and>
           (\<forall>i<length (rows df). \<forall>c\<in>set (encoded_names df). \<forall>q\<in>set (categories df c).
              (dummy_name c q, if cell c (rows df ! i) = Num q then Num 1 else Num 0)
                \<in> set (snd (rows md ! i)))"
proof -
  define md where "md =
     \<lparr>columns = filter (\<lambda>(k, t). k \<noteq> ''Pregnancies'' \<and> k \<noteq> ''Outcome'') (columns df) @
                     map (\<lambda>n. (n, Numeric)) (indicator_names df),
          rows = map (\<lambda>r. (fst r, filter (\<lambda>(k, x). k \<noteq> ''Pregnancies'' \<and> k \<noteq> ''Outcome'') (snd r) @
                                  concat (map (\<lambda>c. dummies_for df c r) (encoded_names df))))
                     (rows df)\<rparr>"
  have oh: "one_hot df = Inr md"
    unfolding md_def by (rule one_hot_present[OF assms(3,4,2)])
  have cols: "col_names md =
      filter (\<lambda>c. c \<noteq> ''Pregnancies'' \<and> c \<noteq> ''Outcome'') (col_names df) @ indicator_names df"
    by (simp add: md_def col_names_def filter_map comp_def case_prod_unfold)
  have notin: "''Pregnancies'' \<notin> set (col_names md)" "''Outcome'' \<notin> set (col_names md)"
    unfolding cols using indicator_names_not_encoded[of df] by auto
  have idx: "map fst (rows md) = map fst (rows df)"
    by (simp add: md_def comp_def)
  have keys: "fst ` set (snd r) = set (col_names df)" if "r \<in> set (rows df)" for r
  proof -
    from assms(1) that have "map fst (snd r) = col_names df"
      by (auto simp: wf_df_def list_all_iff)
    then show ?thesis by (metis set_map)
  qed
  have other: "c \<in> set (col_names md) \<and> map (cell c) (rows md) = map (cell c) (rows df)"
    if "c \<in> set (col_names df)" and "c \<noteq> ''Pregnancies'' \<and> c \<noteq> ''Outcome''" for c
  proof
    show "c \<in> set (col_names md)" unfolding cols using that by simp
    have "cell c (fst r, filter (\<lambda>(k, x). k \<noteq> ''Pregnancies'' \<and> k \<noteq> ''Outcome'') (snd r) @
              concat (map (\<lambda>c. dummies_for df c r) (encoded_names df))) = cell c r"
      if r: "r \<in> set (rows df)" for r
      using cell_kept[of "\<lambda>k. k \<noteq> ''Pregnancies'' \<and> k \<noteq> ''Outcome''" c "snd r" "fst r" _ "fst r"]
        keys[OF r] \<open>c \<in> set (col_names df)\<close> \<open>c \<noteq> ''Pregnancies'' \<and> c \<noteq> ''Outcome''\<close>
      by simp
    then show "map (cell c) (rows md) = map (cell c) (rows df)"
      by (simp add: md_def comp_def)
  qed
  have ind: "(dummy_name c q, if cell c (rows df ! i) = Num q then Num 1 else Num 0)
                \<in> set (snd (rows md ! i))"
    if "i < length (rows df)" and "c \<in> set (encoded_names df)" and "q \<in> set (categories df c)" for i c q
  proof -
    have "(dummy_name c q, if cell c (rows df ! i) = Num q then Num 1 else Num 0)
            \<in> set (dummies_for df c (rows df ! i))"
      using that(3) by (auto simp: dummies_for_def)
    with that(1,2) show ?thesis by (auto simp: md_def)
  qed
  from oh cols notin idx other ind show ?thesis by blast
qed

theorem one_hot_encodes_two_columns_witness:
  "wf_df example_imputed \<and> list_all (\<lambda>(k, t). t = Numeric) (columns example_imputed) \<and>
   ''Pregnancies'' \<in> set (col_names example_imputed) \<and> ''Outcome'' \<in> set (col_names example_imputed) \<and>
   one_hot example_imputed = Inr example_model \<and>
   col_names example_model =
     filter (\<lambda>c. c \<noteq> ''Pregnancies'' \<and> c \<noteq> ''Outcome'') (col_names example_imputed) @
     indicator_names example_imputed \<and>
   map (cell ''Glucose'') (rows example_model) = map (cell ''Glucose'') (rows example_imputed)"
proof -
  have g: "''Glucose'' \<in> set (col_names example_imputed)"
    by (simp add: example_imputed_def col_names_def)
  from one_hot_encodes_two_columns[OF example_imputed_wf] g one_hot_example example_imputed_wf
  show ?thesis by auto
qed

section \<open>Properties of the split cell\<close>

lemma perm_in_range:
  assumes "mset ps = mset [0..<n]"
  shows "list_all (\<lambda>p. p < n) ps"
proof -
  have "set ps = {0..<n}" using mset_eq_setD[OF assms] by simp
  then show ?thesis by (simp add: list_all_iff)
qed

lemma mset_map_nth_perm:
  assumes "mset ps = mset [0..<length xs]"
  shows "mset (map (\<lambda>p. xs ! p) ps) = mset xs"
proof -
  have "mset (map (\<lambda>p. xs ! p) ps) = image_mset (\<lambda>p. xs ! p) (mset ps)" by simp
  also have "\<dots> = mset (map (\<lambda>p. xs ! p) [0..<length xs])" by (simp add: assms)
  also have "\<dots> = mset xs" by (simp add: map_nth)
  finally show ?thesis .
qed

lemma length_perm:
  assumes "mset ps = mset [0..<n]"
  shows "length ps = n"
  using mset_eq_length[OF assms] by simp

lemma sample_all_perm:
  assumes "mset (shuffle s (length (rows df))) = mset [0..<length (rows df)]"
  shows "sample_all shuffle g df (Some s) =
     Inr (df\<lparr>rows := map (\<lambda>p. rows df ! p) (shuffle s (length (rows df)))\<rparr>)"
  using perm_in_range[OF assms] by (simp add: sample_all_def take_rows_def)

lemma three_slices_append:
  "a \<le> b \<Longrightarrow> take a xs @ take (b - a) (drop a xs) @ drop b xs = xs"
proof -
  assume "a \<le> b"
  then have "drop (b - a) (drop a xs) = drop b xs" by simp
  moreover have "take (b - a) (drop a xs) @ drop (b - a) (drop a xs) = drop a xs"
    by (rule append_take_drop_id)
  ultimately have "take (b - a) (drop a xs) @ drop b xs = drop a xs" by simp
  then show ?thesis by simp
qed

lemma np_split_rows:
  "np_split df a b =
     (df\<lparr>rows := take a (rows df)\<rparr>, df\<lparr>rows := take (b - a) (drop a (rows df))\<rparr>,
      df\<lparr>rows := drop b (rows df)\<rparr>)"
  by (simp add: np_split_def slice_rows_def)

lemma split_cell_perm:
  assumes "mset (shuffle 1729 (length (rows md))) = mset [0..<length (rows md)]"
  shows "split_cell shuffle g md =
     Inr (md\<lparr>rows := take (int_fmul float_0_7 (length (rows md))) (shuffled_rows shuffle md)\<rparr>,
          md\<lparr>rows := take (int_fmul float_0_9 (length (rows md)) - int_fmul float_0_7 (length (rows md)))
                        (drop (int_fmul float_0_7 (length (rows md))) (shuffled_rows shuffle md))\<rparr>,
          md\<lparr>rows := drop (int_fmul float_0_9 (length (rows md))) (shuffled_rows shuffle md)\<rparr>)"
  using sample_all_perm[where shuffle=shuffle and s=1729 and df=md and g=g] assms
  by (simp add: split_cell_def np_split_rows shuffled_rows_def)

lemma mset_shuffled_rows:
  assumes "mset (shuffle 1729 (length (rows md))) = mset [0..<length (rows md)]"
  shows "mset (shuffled_rows shuffle md) = mset (rows md)"
  unfolding shuffled_rows_def using assms by (rule mset_map_nth_perm)

lemma length_shuffled_rows:
  assumes "mset (shuffle 1729 (length (rows md))) = mset [0..<length (rows md)]"
  shows "length (shuffled_rows shuffle md) = length (rows md)"
  by (simp add: shuffled_rows_def length_perm[OF assms])

lemma split_lengths:
  assumes "length sh = n"
  shows "length (take (int_fmul float_0_7 n) sh) = int_fmul float_0_7 n"
    and "length (take (int_fmul float_0_9 n - int_fmul float_0_7 n) (drop (int_fmul float_0_7 n) sh)) =
           int_fmul float_0_9 n - int_fmul float_0_7 n"
    and "length (drop (int_fmul float_0_9 n) sh) = n - int_fmul float_0_9 n"
  using assms split_points_le[of n] split_point_le_len[of n] by auto

lemma rev_shuffle_perm: "mset (rev_shuffle s n) = mset [0..<n]"
  by (simp add: rev_shuffle_def)

lemma train_rows_frame_90: "length (train_rows (split_cell rev_shuffle 0 frame_90)) = 62"
proof -
  have n: "length (rows frame_90) = 90" by (simp add: frame_90_def)
  have p: "mset (rev_shuffle 1729 (length (rows frame_90))) = mset [0..<length (rows frame_90)]"
    by (rule rev_shuffle_perm)
  have "length (shuffled_rows rev_shuffle frame_90) = 90"
    using length_shuffled_rows[where shuffle=rev_shuffle and md=frame_90] p n by simp
  then show ?thesis
    using split_cell_perm[where shuffle=rev_shuffle and md=frame_90 and g=0] p
    by (simp add: train_rows_def n int_fmul_0_7_90)
qed

lemma split_cell_ignores_global_state:
  "split_cell shuffle global_state1 model_data = split_cell shuffle global_state2 model_data"
  by (simp add: split_cell_def sample_all_def)

text \<open>
  Claim C2. When the generator draws a permutation of the row positions, the split cell
  returns three frames that partition the rows of its input: laid end to end they are the
  shuffled rows, and as multisets they add up to the rows of the input, so that no row is
  lost and none is duplicated.
\<close>

theorem split_is_partition:
  assumes "mset (shuffle 1729 (length (rows model_data))) = mset [0..<length (rows model_data)]"
  shows "\<exists>train_data validation_data test_data.
           split_cell shuffle global_state model_data = Inr (train_data, validation_data, test_data) \<and>
           rows train_data @ rows validation_data @ rows test_data = shuffled_rows shuffle model_data \<and>
           mset (rows train_data) + mset (rows validation_data) + mset (rows test_data) =
             mset (rows model_data)"
proof -
  let ?a = "int_fmul float_0_7 (length (rows model_data))"
  let ?b = "int_fmul float_0_9 (length (rows model_data))"
  let ?sh = "shuffled_rows shuffle model_data"
  have app: "take ?a ?sh @ take (?b - ?a) (drop ?a ?sh) @ drop ?b ?sh = ?sh"
    by (rule three_slices_append[OF split_points_le])
  have "mset (take ?a ?sh) + mset (take (?b - ?a) (drop ?a ?sh)) + mset (drop ?b ?sh) =
        mset (take ?a ?sh @ take (?b - ?a) (drop ?a ?sh) @ drop ?b ?sh)"
    by (simp only: mset_append add.assoc)
  also have "\<dots> = mset (rows model_data)"
    unfolding app using assms by (rule mset_shuffled_rows)
  finally show ?thesis
    using app split_cell_perm[where shuffle=shuffle and md=model_data and g=global_state] assms
    by simp
qed

theorem split_is_partition_witness:
  "mset (rev_shuffle 1729 (length (rows example_imputed))) = mset [0..<length (rows example_imputed)] \<and>
   (\<exists>train_data validation_data test_data.
      split_cell rev_shuffle 0 example_imputed = Inr (train_data, validation_data, test_data) \<and>
      rows train_data @ rows validation_data @ rows test_data = shuffled_rows rev_shuffle example_imputed \<and>
      mset (rows train_data) + mset (rows validation_data) + mset (rows test_data) =
        mset (rows example_imputed))"
  using split_is_partition[where shuffle=rev_shuffle and model_data=example_imputed and global_state=0]
    rev_shuffle_perm[of 1729 "length (rows example_imputed)"] by blast

text \<open>
  Claim C3, as stated, fails: the training set does not always hold \<open>\<lfloor>0.7 n\<rfloor>\<close> rows. The
  split point is \<^verbatim>\<open>int(0.7 * n)\<close> in binary64 arithmetic, and for ninety rows the
  product rounds to 62.99999999999999, so that 62 rows are taken and not 63.
\<close>

theorem train_size_not_exact_floor:
  "length (train_rows (split_cell rev_shuffle 0 frame_90)) \<noteq>
     nat \<lfloor>(7 / 10 :: rat) * of_nat (length (rows frame_90))\<rfloor> \<and>
   length (rows frame_90) = 90 \<and>
   length (train_rows (split_cell rev_shuffle 0 frame_90)) = 62 \<and>
   nat \<lfloor>(7 / 10 :: rat) * of_nat (length (rows frame_90))\<rfloor> = 63"
proof -
  have "nat \<lfloor>(7 / 10 :: rat) * of_nat (length (rows frame_90))\<rfloor> = 63"
    "length (rows frame_90) = 90"
    by (simp_all add: frame_90_def)
  with train_rows_frame_90 show ?thesis by simp
qed

text \<open>
  Claim C3, amended. When the generator draws a permutation of the row positions, the
  split cell shuffles the \<open>n\<close> rows and cuts them into three contiguous ranges: the first
  \<open>a\<close> rows are the training set, the next \<open>b - a\<close> rows the validation set and the
  remaining \<open>n - b\<close> rows the test set, where \<open>a\<close> and \<open>b\<close> are \<^verbatim>\<open>int(0.7 * n)\<close> and
  \<^verbatim>\<open>int(0.9 * n)\<close> evaluated in binary64, with \<open>a \<le> b \<le> n\<close>. Below \<open>2^48\<close> rows, \<open>b\<close> is
  \<open>\<lfloor>0.9 n\<rfloor>\<close>, and \<open>a\<close> is \<open>\<lfloor>0.7 n\<rfloor>\<close> or one less, one less only if ten divides \<open>n\<close>.
\<close>

theorem split_slices_binary64:
  assumes "mset (shuffle 1729 (length (rows model_data))) = mset [0..<length (rows model_data)]"
  defines "n \<equiv> length (rows model_data)"
  defines "a \<equiv> int_fmul float_0_7 n" and "b \<equiv> int_fmul float_0_9 n"
  shows "\<exists>train_data validation_data test_data.
           split_cell shuffle global_state model_data = Inr (train_data, validation_data, test_data) \<and>
           mset (shuffled_rows shuffle model_data) = mset (rows model_data) \<and>
           rows train_data = take a (shuffled_rows shuffle model_data) \<and>
           rows validation_data = take (b - a) (drop a (shuffled_rows shuffle model_data)) \<and>
           rows test_data = drop b (shuffled_rows shuffle model_data) \<and>
           length (rows train_data) = a \<and> length (rows validation_data) = b - a \<and>
           length (rows test_data) = n - b \<and> a \<le> b \<and> b \<le> n \<and>
           (n < 2 ^ 48 \<longrightarrow> b = 9 * n div 10 \<and> a \<le> 7 * n div 10 \<and> 7 * n div 10 \<le> a + 1 \<and>
                             (n mod 10 \<noteq> 0 \<longrightarrow> a = 7 * n div 10))"
proof -
  have len: "length (shuffled_rows shuffle model_data) = n"
    unfolding n_def using assms(1) by (rule length_shuffled_rows)
  have ms: "mset (shuffled_rows shuffle model_data) = mset (rows model_data)"
    using assms(1) by (rule mset_shuffled_rows)
  have sc: "split_cell shuffle global_state model_data =
     Inr (model_data\<lparr>rows := take a (shuffled_rows shuffle model_data)\<rparr>,
          model_data\<lparr>rows := take (b - a) (drop a (shuffled_rows shuffle model_data))\<rparr>,
          model_data\<lparr>rows := drop b (shuffled_rows shuffle model_data)\<rparr>)"
    unfolding a_def b_def n_def
    using split_cell_perm[where shuffle=shuffle and md=model_data and g=global_state] assms(1)
    by simp
  have ab: "a \<le> b" "b \<le> n"
    unfolding a_def b_def by (rule split_points_le, rule split_point_le_len)
  have ex: "b = 9 * n div 10 \<and> a \<le> 7 * n div 10 \<and> 7 * n div 10 \<le> a + 1 \<and>
            (n mod 10 \<noteq> 0 \<longrightarrow> a = 7 * n div 10)" if "n < 2 ^ 48"
    unfolding a_def b_def using split_points_exact[OF that] by blast
  show ?thesis
    unfolding sc using ms ab ex split_lengths[OF len] 
    by (simp add: a_def b_def)
qed

theorem split_slices_binary64_witness:
  "mset (rev_shuffle 1729 (length (rows frame_90))) = mset [0..<length (rows frame_90)] \<and>
   length (train_rows (split_cell rev_shuffle 0 frame_90)) = int_fmul float_0_7 90 \<and>
   int_fmul float_0_7 90 = 62 \<and> int_fmul float_0_9 90 = 81"
proof -
  have n: "length (rows frame_90) = 90" by (simp add: frame_90_def)
  have p: "mset (rev_shuffle 1729 (length (rows frame_90))) = mset [0..<length (rows frame_90)]"
    by (rule rev_shuffle_perm)
  have "int_fmul float_0_9 90 = 81"
    by (simp add: int_fmul_def rne53_def float_0_9_def bit_length.simps Let_def)
  with split_slices_binary64[where shuffle=rev_shuffle and model_data=frame_90 and global_state=0] p n
    int_fmul_0_7_90
  show ?thesis by (auto simp: train_rows_def)
qed

section \<open>Properties of the export cell\<close>

lemma drop_columns_present:
  assumes "set labels \<subseteq> set (col_names df)"
  shows "drop_columns df labels =
     Inr \<lparr>columns = filter (\<lambda>(k, t). k \<notin> set labels) (columns df),
          rows = map (\<lambda>r. (fst r, filter (\<lambda>(k, x). k \<notin> set labels) (snd r))) (rows df)\<rparr>"
proof -
  have "filter (\<lambda>c. c \<notin> set (col_names df)) labels = []"
    using assms by (auto simp: filter_empty_conv)
  then show ?thesis by (simp add: drop_columns_def)
qed

lemma unlabelled_csv_present:
  assumes "''Outcome_0'' \<in> set (col_names df)" and "''Outcome_1'' \<in> set (col_names df)"
  shows "unlabelled_csv df = Inr (map feature_fields (rows df))"
  using assms
  by (simp add: unlabelled_csv_def drop_columns_present to_csv_def feature_fields_def comp_def)

lemma labelled_csv_present:
  assumes "''Outcome_0'' \<in> set (col_names df)" and "''Outcome_1'' \<in> set (col_names df)"
  shows "labelled_csv df = Inr (map labelled_line (rows df))"
proof -
  obtain t where g: "getitem df ''Outcome_1'' =
      Inr ((''Outcome_1'', t), map (\<lambda>r. (fst r, cell ''Outcome_1'' r)) (rows df))"
    using getitem_present[OF assms(2)] by blast
  have z: "map f (zip (map g xs) (map h xs)) = map (\<lambda>x. f (g x, h x)) xs" for f :: "'a \<times> 'b \<Rightarrow> 'c" and g h and xs :: "'d list"
    by (induction xs) auto
  show ?thesis
    using assms
    by (simp add: labelled_csv_def g drop_columns_present concat_axis1_def to_csv_def z
        labelled_line_def feature_fields_def comp_def)
qed

text \<open>
  Claim C10. When the three frames have the columns \<^verbatim>\<open>Outcome_0\<close> and \<^verbatim>\<open>Outcome_1\<close>, the
  export cell writes five files. Each labelled file (\<^verbatim>\<open>train.csv\<close>, \<^verbatim>\<open>validation.csv\<close>,
  \<^verbatim>\<open>test.csv\<close>, \<^verbatim>\<open>merged.csv\<close>) has one line per row and no header line; a line starts
  with the value of \<^verbatim>\<open>Outcome_1\<close>, followed by the values of the columns other than the
  two outcome indicators, and holds no index field. \<^verbatim>\<open>test-no-outcomes.csv\<close> holds only
  those feature values.
\<close>

theorem export_layout:
  assumes "{''Outcome_0'', ''Outcome_1''} \<subseteq> set (col_names train_data)"
    and "{''Outcome_0'', ''Outcome_1''} \<subseteq> set (col_names validation_data)"
    and "{''Outcome_0'', ''Outcome_1''} \<subseteq> set (col_names test_data)"
  shows "export_cell train_data validation_data test_data =
     Inr [(''train.csv'', map labelled_line (rows train_data)),
          (''validation.csv'', map labelled_line (rows validation_data)),
          (''test.csv'', map labelled_line (rows test_data)),
          (''test-no-outcomes.csv'', map feature_fields (rows test_data)),
          (''merged.csv'', map labelled_line (rows train_data @ rows validation_data))]"
proof -
  have m: "{''Outcome_0'', ''Outcome_1''} \<subseteq> set (col_names (concat2 train_data validation_data))"
    using assms(1) by (simp add: concat2_def)
  have "labelled_csv (concat2 train_data validation_data) =
      Inr (map labelled_line (rows train_data @ rows validation_data))"
    using labelled_csv_present[of "concat2 train_data validation_data"] m
    by (simp add: concat2_def)
  then show ?thesis
    using assms by (simp add: export_cell_def labelled_csv_present unlabelled_csv_present)
qed

theorem export_layout_witness:
  "{''Outcome_0'', ''Outcome_1''} \<subseteq> set (col_names example_model) \<and>
   export_cell example_model example_model example_model =
     Inr [(''train.csv'', map labelled_line (rows example_model)),
          (''validation.csv'', map labelled_line (rows example_model)),
          (''test.csv'', map labelled_line (rows example_model)),
          (''test-no-outcomes.csv'', map feature_fields (rows example_model)),
          (''merged.csv'', map labelled_line (rows example_model @ rows example_model))] \<and>
   labelled_line (hd (rows example_model)) =
     [Value (Num 1), Value (Num 148), Value (Num 72), Value (Num 35), Value (Num 0),
      Value (Num (168 / 5)), Value (Num 0), Value (Num 1), Value (Num 0)]"
proof -
  have c: "{''Outcome_0'', ''Outcome_1''} \<subseteq> set (col_names example_model)"
    by (simp add: example_model_def col_names_def)
  have l: "labelled_line (hd (rows example_model)) =
     [Value (Num 1), Value (Num 148), Value (Num 72), Value (Num 35), Value (Num 0),
      Value (Num (168 / 5)), Value (Num 0), Value (Num 1), Value (Num 0)]"
    by (simp add: example_model_def labelled_line_def feature_fields_def cell_def)
  from export_layout[OF c c c] c l show ?thesis by simp
qed

section \<open>The three cleaning cells together\<close>

text \<open>
  Claim C7. On a frame that has the five imputed columns, \<^verbatim>\<open>Outcome\<close> and \<^verbatim>\<open>Pregnancies\<close>
  (the columns of the dataset that the cells read), with a generator that draws
  permutations, imputation, encoding and split return three frames: no step raises. The
  median is a total function (\<^verbatim>\<open>nan\<close> on an empty class), so it cannot fail.
\<close>

theorem prepare_never_raises:
  assumes "set columnsToImpute \<subseteq> set (col_names data)" and "''Outcome'' \<in> set (col_names data)"
    and "''Pregnancies'' \<in> set (col_names data)"
    and "\<forall>n. mset (shuffle 1729 n) = mset [0..<n]"
  shows "\<exists>train_data validation_data test_data.
           prepare shuffle global_state data = Inr (train_data, validation_data, test_data)"
proof -
  define data' where
    "data' = data\<lparr>rows := map (imputed_row data) (class_rows data (Num 1) @ class_rows data (Num 0))\<rparr>"
  have i: "impute data = Inr data'"
    unfolding data'_def by (rule impute_present[OF assms(1,2)])
  have "col_names data' = col_names data" by (simp add: data'_def)
  then obtain model_data where o: "one_hot data' = Inr model_data"
    using one_hot_Inr[of data'] assms(2,3) by auto
  have "mset (shuffle 1729 (length (rows model_data))) = mset [0..<length (rows model_data)]"
    using assms(4) by simp
  then obtain s where "split_cell shuffle global_state model_data = Inr s"
    using split_cell_perm[where shuffle=shuffle and md=model_data and g=global_state] by simp
  then show ?thesis
    by (cases s) (simp add: prepare_def i o)
qed

theorem prepare_never_raises_witness:
  "set columnsToImpute \<subseteq> set (col_names example_data) \<and> ''Outcome'' \<in> set (col_names example_data) \<and>
   ''Pregnancies'' \<in> set (col_names example_data) \<and> (\<forall>n. mset (rev_shuffle 1729 n) = mset [0..<n]) \<and>
   (\<exists>train_data validation_data test_data.
      prepare rev_shuffle 0 example_data = Inr (train_data, validation_data, test_data))"
proof -
  have p: "''Pregnancies'' \<in> set (col_names example_data)"
    by (simp add: example_data_def col_names_def)
  have s: "\<forall>n. mset (rev_shuffle 1729 n) = mset [0..<n]"
    by (simp add: rev_shuffle_perm)
  from prepare_never_raises[where shuffle=rev_shuffle and data=example_data and global_state=0]
    example_cols p s
  show ?thesis by blast
qed

text \<open>
  Without a seed, sampling depends on the state of the process-wide generator.
\<close>

lemma sample_unseeded_depends_on_global_state:
  "sample_all state_shuffle 0 example_imputed None \<noteq> sample_all state_shuffle 1 example_imputed None"
  by (simp add: sample_all_def take_rows_def state_shuffle_def example_imputed_def)

text \<open>
  Claim C5. The cleaning cells are deterministic: the split is seeded with 1729, so the
  three frames do not depend on the state of the process-wide generator, the one source
  of randomness; two runs on the same frame return the same result.
\<close>

theorem prepare_deterministic:
  "prepare shuffle global_state1 data = prepare shuffle global_state2 data"
  unfolding prepare_def
  by (simp add: split_cell_ignores_global_state[of shuffle global_state1 _ global_state2]
      split: sum.splits)

section \<open>The order of the workflow\<close>

text \<open>
  Claim C6. The workflow definition is a chain of exactly five steps, run in this order:
  training, model creation, transform, endpoint configuration, endpoint creation.
\<close>

theorem workflow_five_steps_in_order:
  "run_order workflow_definition =
     Some [TrainingStep, ModelStep, TransformStep, EndpointConfigStep, EndpointStep] \<and>
   map state_id workflow_definition =
     [''Train Step'', ''Save model'', ''Transform Input Dataset'', ''Create Endpoint Config'',
      ''Create Endpoint''] \<and>
   length workflow_definition = 5"
  by (simp add: workflow_definition_def Chain_def chain_append_def run_order_def
      training_step_def model_step_def transform_step_def endpoint_config_step_def
      endpoint_step_def)

end
